theory Spec2Isabelle
  imports Complex_Main "HOL-Library.Sublist"
begin

section \<open>Time values\<close>

text \<open>
  Naive \<^verbatim>\<open>datetime\<close> values have microsecond resolution; a \<open>datetime\<close> is the number
  of microseconds since midnight of proleptic ordinal day 0, a \<open>date\<close> is Python's
  proleptic ordinal (\<^verbatim>\<open>date.toordinal()\<close>), and a \<open>timedelta\<close> is a signed number of
  microseconds. The generators hand timestamps from stage to stage as ISO strings
  (\<^verbatim>\<open>isoformat\<close> / \<^verbatim>\<open>fromisoformat\<close>), which is the identity on naive values, so the
  records below carry the values themselves. Python's floats are read as exact
  rationals, so the bounds proved below are bounds of exact arithmetic, and the year
  range 1..9999 of \<^verbatim>\<open>datetime\<close> is not modelled (outside it Python raises
  \<^verbatim>\<open>OverflowError\<close> and returns nothing).
\<close>

type_synonym datetime = int
type_synonym date = int
type_synonym timedelta = int

definition us_per_second :: int where
  "us_per_second = 1000000"

definition us_per_hour :: int where
  "us_per_hour = 3600000000"

definition us_per_day :: int where
  "us_per_day = 86400000000"

text \<open>Rounding to the nearest integer, ties to even: Python's \<^verbatim>\<open>round(x)\<close> and the
  rounding of a fractional \<^verbatim>\<open>timedelta\<close> argument.\<close>

definition round_half_even :: "rat \<Rightarrow> int" where
  "round_half_even x =
     (let f = \<lfloor>x\<rfloor>; d = x - of_int f
      in if d < 1 / 2 then f
         else if 1 / 2 < d then f + 1
         else if even f then f else f + 1)"

definition timedelta_days :: "int \<Rightarrow> timedelta" where
  "timedelta_days d = d * us_per_day"

definition timedelta_hours :: "int \<Rightarrow> timedelta" where
  "timedelta_hours h = h * us_per_hour"

definition timedelta_seconds :: "rat \<Rightarrow> timedelta" where
  "timedelta_seconds s = round_half_even (s * of_int us_per_second)"


definition total_seconds :: "timedelta \<Rightarrow> rat" where
  "total_seconds td = of_int td / of_int us_per_second"

definition date_of :: "datetime \<Rightarrow> date" where
  "date_of dt = dt div us_per_day"

definition combine_min :: "date \<Rightarrow> datetime" where
  "combine_min d = d * us_per_day"

definition weekday :: "date \<Rightarrow> int" where
  "weekday d = (d + 6) mod 7"

section \<open>utils/dates.py\<close>

text \<open>\<^verbatim>\<open>random_datetime_between(start, end)\<close>; \<open>beta\<close> is the value \<^verbatim>\<open>frac\<close> drawn by
  \<^verbatim>\<open>random.betavariate(2, 5)\<close>, which lies in \<open>[0, 1]\<close>.\<close>

definition random_datetime_between :: "datetime \<Rightarrow> datetime \<Rightarrow> rat \<Rightarrow> datetime" where
  "random_datetime_between start stop beta =
     (if start \<ge> stop then start
      else let total = total_seconds (stop - start);
               offset = total * (1 - beta)
           in start + timedelta_seconds offset)"

text \<open>\<^verbatim>\<open>_to_business_day(d)\<close>; \<open>u\<close> is the value of \<^verbatim>\<open>random.random()\<close>, consulted on a
  Saturday only.\<close>

definition to_business_day :: "date \<Rightarrow> rat \<Rightarrow> date" where
  "to_business_day d u =
     (let wd = weekday d
      in if wd < 5 then d
         else if wd = 5 then (if u < 6 / 10 then d - 1 else d + 2)
         else d + 1)"

text \<open>\<^verbatim>\<open>business_due_date_from_created(created_at, min_days, max_days)\<close>; \<open>tri\<close> is
  the value drawn by \<^verbatim>\<open>random.triangular(min_days, max_days, mode)\<close>.\<close>

definition business_due_date_from_created ::
    "datetime \<Rightarrow> int \<Rightarrow> int \<Rightarrow> rat \<Rightarrow> rat \<Rightarrow> date" where
  "business_due_date_from_created created_at min_days max_days tri u =
     (if max_days \<le> 0 then to_business_day (date_of created_at) u
      else let offset_days = round_half_even tri;
               offset_days = max min_days (min max_days offset_days);
               raw_date = date_of created_at + offset_days
           in to_business_day raw_date u)"

text \<open>\<^verbatim>\<open>completed_after_created(created_at, due, min_hours, max_days)\<close>; \<open>beta\<close> is the
  beta draw of the inner \<^verbatim>\<open>random_datetime_between\<close>.\<close>

definition completed_after_created ::
    "datetime \<Rightarrow> date option \<Rightarrow> int \<Rightarrow> int \<Rightarrow> rat \<Rightarrow> datetime" where
  "completed_after_created created_at due min_hours max_days beta =
     (let earliest = created_at + timedelta_hours min_hours;
          latest = created_at + timedelta_days max_days;
          (earliest, latest) =
            (case due of
               None \<Rightarrow> (earliest, latest)
             | Some d \<Rightarrow>
                 (let due_dt = combine_min d
                  in (min earliest (due_dt - timedelta_days 7),
                      min latest (due_dt + timedelta_days 14))))
      in if earliest \<ge> latest then earliest
         else random_datetime_between earliest latest beta)"

text \<open>\<^verbatim>\<open>is_overdue(due, completed_at, now)\<close>; \<open>utcnow\<close> is the clock reading used when
  \<open>now\<close> is not supplied.\<close>

definition is_overdue :: "date option \<Rightarrow> datetime option \<Rightarrow> datetime option \<Rightarrow> datetime \<Rightarrow> bool" where
  "is_overdue due completed_at now utcnow =
     (case due of
        None \<Rightarrow> False
      | Some d \<Rightarrow>
          (let now' = (case now of Some n \<Rightarrow> n | None \<Rightarrow> utcnow)
           in case completed_at of
                Some c \<Rightarrow> False
              | None \<Rightarrow> d < date_of now'))"

section \<open>Random primitives\<close>

text \<open>
  Every call of the \<^verbatim>\<open>random\<close> module is modelled by the value it draws, passed in as
  an argument: \<^verbatim>\<open>random.random()\<close> gives a rational \<open>u\<close> (in \<open>[0, 1)\<close>),
  \<^verbatim>\<open>random.betavariate\<close>, \<^verbatim>\<open>random.triangular\<close> and \<^verbatim>\<open>random.uniform\<close> give rationals,
  \<^verbatim>\<open>random.randint\<close> gives an integer, and \<^verbatim>\<open>uuid.uuid4()\<close> gives a string. Where a
  property needs the range of a draw, the theorem says so.
\<close>

datatype error = IndexError | ValueError

text \<open>\<^verbatim>\<open>random.choice(seq)\<close>: \<^verbatim>\<open>seq[randbelow(len(seq))]\<close>, an \<^verbatim>\<open>IndexError\<close> on an empty
  sequence; \<open>r\<close> stands for the random bits and \<^verbatim>\<open>randbelow(n)\<close> is \<open>r mod n\<close>.\<close>

definition random_choice :: "'a list \<Rightarrow> nat \<Rightarrow> error + 'a" where
  "random_choice seq r =
     (if seq = [] then Inl IndexError else Inr (seq ! (r mod length seq)))"

text \<open>\<^verbatim>\<open>itertools.accumulate(weights)\<close>: the running sums.\<close>

fun accumulate_from :: "rat \<Rightarrow> rat list \<Rightarrow> rat list" where
  "accumulate_from acc [] = []"
| "accumulate_from acc (w # ws) = (acc + w) # accumulate_from (acc + w) ws"

definition accumulate :: "rat list \<Rightarrow> rat list" where
  "accumulate ws = accumulate_from 0 ws"

text \<open>\<^verbatim>\<open>bisect.bisect_right(a, x, lo, hi)\<close>: the binary search of the standard library.\<close>

function bisect :: "rat list \<Rightarrow> rat \<Rightarrow> nat \<Rightarrow> nat \<Rightarrow> nat" where
  "bisect a x lo hi =
     (if lo < hi then
        (let mid = (lo + hi) div 2
         in if x < a ! mid then bisect a x lo mid else bisect a x (mid + 1) hi)
      else lo)"
  by pat_completeness auto
termination
  by (relation "measure (\<lambda>(a, x, lo, hi). hi - lo)") auto

declare bisect.simps [simp del]

text \<open>\<^verbatim>\<open>random.choices(population, weights=weights, k=1)[0]\<close>; \<open>u\<close> is the value of
  \<^verbatim>\<open>random.random()\<close>.\<close>

definition choices :: "'a list \<Rightarrow> rat list \<Rightarrow> rat \<Rightarrow> error + 'a" where
  "choices population weights u =
     (let n = length population;
          cum_weights = accumulate weights
      in if length cum_weights \<noteq> n then Inl ValueError
         else if cum_weights = [] then Inl IndexError
         else let total = last cum_weights
              in if total \<le> 0 then Inl ValueError
                 else Inr (population ! bisect cum_weights (u * total) 0 (n - 1)))"

text \<open>\<^verbatim>\<open>random.sample(population, k)\<close>: \<open>k\<close> elements at pairwise distinct positions,
  a \<^verbatim>\<open>ValueError\<close> when \<open>k\<close> exceeds the population (or is negative); the selection
  is the pool loop of the standard library, \<open>rs i\<close> standing for the random bits of
  round \<open>i\<close>.\<close>

fun sample_pool :: "'a list \<Rightarrow> nat \<Rightarrow> nat \<Rightarrow> (nat \<Rightarrow> nat) \<Rightarrow> nat \<Rightarrow> 'a list" where
  "sample_pool pool n i rs 0 = []"
| "sample_pool pool n i rs (Suc k) =
     (let j = rs i mod (n - i)
      in pool ! j # sample_pool (pool[j := pool ! (n - i - 1)]) n (i + 1) rs k)"

definition random_sample :: "'a list \<Rightarrow> int \<Rightarrow> (nat \<Rightarrow> nat) \<Rightarrow> error + 'a list" where
  "random_sample population k rs =
     (let n = length population
      in if \<not> (0 \<le> k \<and> k \<le> int n) then Inl ValueError
         else Inr (sample_pool population n 0 rs (nat k)))"

text \<open>Sequencing of fallible steps: the first exception ends the computation.\<close>

definition bind_err :: "error + 'a \<Rightarrow> ('a \<Rightarrow> error + 'b) \<Rightarrow> error + 'b" where
  "bind_err m f = (case m of Inl e \<Rightarrow> Inl e | Inr x \<Rightarrow> f x)"

text \<open>A \<^verbatim>\<open>for\<close> loop over a list whose body may raise: the results of the iterations
  in order, or the first exception.\<close>

fun for_each :: "('a \<Rightarrow> error + 'b) \<Rightarrow> 'a list \<Rightarrow> error + 'b list" where
  "for_each f [] = Inr []"
| "for_each f (x # xs) =
     (case f x of
        Inl e \<Rightarrow> Inl e
      | Inr y \<Rightarrow> (case for_each f xs of Inl e \<Rightarrow> Inl e | Inr ys \<Rightarrow> Inr (y # ys)))"

text \<open>ASCII \<^verbatim>\<open>str.lower()\<close> and the substring test \<^verbatim>\<open>needle in haystack\<close>.\<close>

definition lower_char :: "char \<Rightarrow> char" where
  "lower_char c =
     (let k = of_char c :: nat in if 65 \<le> k \<and> k \<le> 90 then char_of (k + 32) else c)"

definition lower :: "string \<Rightarrow> string" where
  "lower s = map lower_char s"

definition contains :: "string \<Rightarrow> string \<Rightarrow> bool" where
  "contains haystack needle = sublist needle haystack"

section \<open>utils/config.py and the storage collaborator\<close>

definition commented_task_fraction :: rat where "commented_task_fraction = 20 / 100"
definition completion_ratio :: rat where "completion_ratio = 65 / 100"
definition unassigned_task_probability :: rat where "unassigned_task_probability = 20 / 100"
definition overdue_task_probability :: rat where "overdue_task_probability = 10 / 100"

text \<open>The rows written through \<^verbatim>\<open>bulk_insert\<close>, one record per table, with the columns in
  the order of the \<^verbatim>\<open>columns\<close> argument.\<close>

record team_row =
  tr_id :: string
  tr_organization_id :: string
  tr_name :: string
  tr_description :: string
  tr_created_at :: datetime

record membership_row =
  mr_id :: string
  mr_team_id :: string
  mr_user_id :: string
  mr_role :: string
  mr_added_at :: datetime

record project_row =
  pr_id :: string
  pr_team_id :: string
  pr_organization_id :: string
  pr_name :: string
  pr_description :: string
  pr_project_type :: string
  pr_start_date :: date
  pr_due_date :: "date option"
  pr_created_at :: datetime
  pr_completed_at :: "datetime option"
  pr_is_archived :: int

record task_row =
  kr_id :: string
  kr_project_id :: string
  kr_section_id :: "string option"
  kr_organization_id :: string
  kr_name :: string
  kr_description :: "string option"
  kr_assignee_id :: "string option"
  kr_created_by_user_id :: string
  kr_created_at :: datetime
  kr_due_date :: "date option"
  kr_completed_at :: "datetime option"
  kr_last_activity_at :: datetime
  kr_priority :: string
  kr_is_deleted :: int

record subtask_row =
  sr_id :: string
  sr_parent_task_id :: string
  sr_project_id :: string
  sr_organization_id :: string
  sr_name :: string
  sr_description :: "string option"
  sr_assignee_id :: "string option"
  sr_created_by_user_id :: string
  sr_created_at :: datetime
  sr_due_date :: "date option"
  sr_completed_at :: "datetime option"
  sr_sort_order :: int

record comment_row =
  cr_id :: string
  cr_task_id :: string
  cr_subtask_id :: "string option"
  cr_author_id :: string
  cr_body :: string
  cr_created_at :: datetime

text \<open>The connection: the contents of the tables the generators below write. The
  constraints of the schema are not modelled.\<close>

record conn =
  teams_table :: "team_row list"
  team_memberships_table :: "membership_row list"
  projects_table :: "project_row list"
  tasks_table :: "task_row list"
  subtasks_table :: "subtask_row list"
  comments_table :: "comment_row list"

text \<open>\<^verbatim>\<open>bulk_insert(conn, table, columns, rows)\<close> appends the rows to the table (and
  does nothing for no rows).\<close>

definition bulk_insert :: "'r list \<Rightarrow> 'r list \<Rightarrow> 'r list" where
  "bulk_insert table rows = (if rows = [] then table else table @ rows)"



record user =
  user_id :: string
  user_role :: string

record membership =
  membership_id :: string
  membership_team_id :: string
  membership_user_id :: string
  membership_role :: string

record project =
  project_id :: string
  project_team_id :: string
  project_name :: string
  project_type :: string
  project_created_at :: datetime

record section_rec =
  section_id :: string
  section_project_id :: string
  section_name :: string

record task =
  task_id :: string
  task_project_id :: string
  task_section_id :: "string option"
  task_assignee_id :: "string option"
  task_created_at :: datetime
  task_due_date :: "date option"
  task_completed_at :: "datetime option"

record subtask =
  subtask_id :: string
  subtask_parent_task_id :: string
  subtask_project_id :: string

record comment =
  comment_id :: string
  comment_task_id :: string

section \<open>generators/teams.py\<close>

text \<open>\<^verbatim>\<open>_weighted_unique_sample(options, weights, target)\<close>: the \<^verbatim>\<open>while\<close> loop, entered
  with the names chosen so far; \<open>draws n\<close> is the value of \<^verbatim>\<open>random.random()\<close> inside the
  \<open>n\<close>-th call of \<^verbatim>\<open>random.choices\<close>. A loop that never ends has the value \<open>None\<close>.\<close>

partial_function (option) weighted_unique_sample_loop ::
    "string list \<Rightarrow> rat list \<Rightarrow> int \<Rightarrow> (nat \<Rightarrow> rat) \<Rightarrow> nat \<Rightarrow> string list
     \<Rightarrow> (error + string list) option" where
  "weighted_unique_sample_loop options weights target draws n chosen =
     (if int (length chosen) < target \<and> length chosen < length options then
        (case choices options weights (draws n) of
           Inl e \<Rightarrow> Some (Inl e)
         | Inr pick \<Rightarrow>
             if pick \<notin> set chosen
             then weighted_unique_sample_loop options weights target draws (n + 1) (chosen @ [pick])
             else weighted_unique_sample_loop options weights target draws (n + 1) chosen)
      else Some (Inr chosen))"

declare weighted_unique_sample_loop.simps [code]

definition weighted_unique_sample ::
    "string list \<Rightarrow> rat list \<Rightarrow> int \<Rightarrow> (nat \<Rightarrow> rat) \<Rightarrow> (error + string list) option" where
  "weighted_unique_sample options weights target draws =
     weighted_unique_sample_loop options weights target draws 0 []"

definition base_names :: "string list" where
  "base_names =
     [''Engineering'', ''Product'', ''Design'', ''Marketing'', ''Sales'',
      ''Customer Success'', ''Data'', ''IT'', ''Security'', ''Finance'',
      ''People Operations'', ''Recruiting'', ''Quality Assurance'',
      ''Business Operations'', ''Program Management'']"

definition base_weights :: "rat list" where
  "base_weights =
     [20 / 100, 14 / 100, 10 / 100, 10 / 100, 10 / 100, 6 / 100, 5 / 100, 4 / 100,
      3 / 100, 3 / 100, 3 / 100, 3 / 100, 3 / 100, 3 / 100, 3 / 100]"




section \<open>generators/team_memberships.py\<close>










section \<open>generators/projects.py\<close>





section \<open>generators/tasks.py\<close>

text \<open>Truth value of an optional string: \<^verbatim>\<open>None\<close> and the empty string are false.\<close>

definition truthy :: "string option \<Rightarrow> bool" where
  "truthy s = (case s of None \<Rightarrow> False | Some v \<Rightarrow> v \<noteq> [])"

text \<open>\<^verbatim>\<open>_build_team_members(projects, memberships).get(team_id)\<close>.\<close>

definition build_team_members :: "membership list \<Rightarrow> string \<Rightarrow> string list option" where
  "build_team_members memberships tid =
     (let us = map membership_user_id (filter (\<lambda>m. membership_team_id m = tid) memberships)
      in if us = [] then None else Some us)"


definition section_weight :: "section_rec \<Rightarrow> rat" where
  "section_weight s =
     (let name = lower (section_name s)
      in if contains name ''backlog'' \<or> contains name ''ideas'' then 8 / 10
         else if contains name ''done'' \<or> contains name ''closed'' \<or> contains name ''complete''
           then 7 / 10
         else 2)"

definition pick_section :: "section_rec list \<Rightarrow> rat \<Rightarrow> error + section_rec option" where
  "pick_section sections u =
     (if sections = [] then Inr None
      else bind_err (choices sections (map section_weight sections) u) (\<lambda>s. Inr (Some s)))"

text \<open>\<^verbatim>\<open>_pick_assignee(project, team_members, all_users)\<close>; \<open>u\<close> is the draw of the
  unassigned test, \<open>r\<close> the random bits of the choice.\<close>

definition pick_assignee ::
    "project \<Rightarrow> (string \<Rightarrow> string list option) \<Rightarrow> user list \<Rightarrow> rat \<Rightarrow> nat
     \<Rightarrow> error + string option" where
  "pick_assignee prj team_members all_users u r =
     (if u < unassigned_task_probability then Inr None
      else let candidates = team_members (project_team_id prj)
           in if candidates = None \<or> candidates = Some []
              then bind_err (random_choice all_users r) (\<lambda>usr. Inr (Some (user_id usr)))
              else bind_err (random_choice (the candidates) r) (\<lambda>uid. Inr (Some uid)))"

text \<open>The draws of one task, in the order of the loop body: the beta draw of
  \<open>created_at\<close>, the section draw, the two draws of the assignee, the two draws of the
  due-date decision with the triangular and weekend draws of the due date, the
  completion draw with the beta draw of the completion time, the overdue draw, the
  title, the identifier, and the random bits of the creator and of the priority.\<close>

record task_draws =
  kd_created :: rat
  kd_section :: rat
  kd_unassigned :: rat
  kd_assignee :: nat
  kd_due1 :: rat
  kd_due2 :: rat
  kd_due_tri :: rat
  kd_due_snap :: rat
  kd_completed :: rat
  kd_completed_beta :: rat
  kd_overdue :: rat
  kd_name :: string
  kd_uuid :: string
  kd_creator :: nat
  kd_priority :: nat

text \<open>One iteration of the inner loop of \<^verbatim>\<open>generate_tasks\<close>: the row and the record of
  one task.\<close>

definition generate_task ::
    "datetime \<Rightarrow> string \<Rightarrow> project \<Rightarrow> section_rec list \<Rightarrow> (string \<Rightarrow> string list option)
     \<Rightarrow> user list \<Rightarrow> task_draws \<Rightarrow> error + task_row \<times> task" where
  "generate_task now organization_id prj project_sections team_members all_users d =
     (let project_created = project_created_at prj;
          created_at = random_datetime_between project_created now (kd_created d)
      in bind_err (if project_sections \<noteq> [] then pick_section project_sections (kd_section d)
                   else Inr None) (\<lambda>section.
         let section_id = (case section of Some s \<Rightarrow> Some (section_id s) | None \<Rightarrow> None)
         in bind_err (pick_assignee prj team_members all_users (kd_unassigned d) (kd_assignee d))
              (\<lambda>assignee_id.
         let has_due = project_type prj \<in> {''roadmap'', ''sprint'', ''launch''};
             due_date =
               (if has_due \<and> kd_due1 d < 85 / 100
                then Some (business_due_date_from_created created_at 3 75
                             (kd_due_tri d) (kd_due_snap d))
                else if kd_due2 d < 35 / 100
                then Some (business_due_date_from_created created_at 5 45
                             (kd_due_tri d) (kd_due_snap d))
                else None);
             completed_flag = (kd_completed d < completion_ratio);
             completed_at =
               (if completed_flag
                then Some (completed_after_created created_at due_date 1 60 (kd_completed_beta d))
                else None);
             due_date =
               (case due_date of
                  None \<Rightarrow> None
                | Some due \<Rightarrow>
                    if \<not> completed_flag \<and> kd_overdue d < overdue_task_probability
                       \<and> due \<ge> date_of now
                    then Some (date_of now) else Some due);
             last_activity_at = (case completed_at of Some c \<Rightarrow> c | None \<Rightarrow> created_at);
             name = kd_name d;
             task_id = kd_uuid d
         in bind_err (if truthy assignee_id then Inr (the assignee_id)
                      else bind_err (random_choice all_users (kd_creator d))
                             (\<lambda>usr. Inr (user_id usr))) (\<lambda>created_by.
            bind_err (random_choice [''low'', ''medium'', ''high'', ''urgent''] (kd_priority d))
              (\<lambda>priority.
            Inr (\<lparr>kr_id = task_id, kr_project_id = project_id prj, kr_section_id = section_id,
                   kr_organization_id = organization_id, kr_name = name,
                   kr_description = None, kr_assignee_id = assignee_id,
                   kr_created_by_user_id = created_by, kr_created_at = created_at,
                   kr_due_date = due_date, kr_completed_at = completed_at,
                   kr_last_activity_at = last_activity_at, kr_priority = priority,
                   kr_is_deleted = 0\<rparr>,
                 \<lparr>task_id = task_id, task_project_id = project_id prj,
                   task_section_id = section_id, task_assignee_id = assignee_id,
                   task_created_at = created_at, task_due_date = due_date,
                   task_completed_at = completed_at\<rparr>))))))"


section \<open>generators/subtasks.py\<close>

definition min_subtask_task_fraction :: rat where "min_subtask_task_fraction = 30 / 100"
definition max_subtask_task_fraction :: rat where "max_subtask_task_fraction = 40 / 100"

text \<open>\<^verbatim>\<open>int(x)\<close> on a float: truncation toward zero.\<close>

definition int_trunc :: "rat \<Rightarrow> int" where
  "int_trunc x = (if 0 \<le> x then \<lfloor>x\<rfloor> else \<lceil>x\<rceil>)"

text \<open>The draws of one subtask, in the order of the loop body: the identifier, the beta
  draw of \<open>created_at\<close>, the inheritance draw with the triangular and weekend draws
  of an own due date, the completion draw with the beta draw of the completion time,
  the random bits of the creator, the delegation draw and the title.\<close>

record subtask_draws =
  sd_uuid :: string
  sd_created :: rat
  sd_inherit :: rat
  sd_due_tri :: rat
  sd_due_snap :: rat
  sd_completed :: rat
  sd_completed_beta :: rat
  sd_creator :: nat
  sd_delegate :: rat
  sd_title :: string

text \<open>One iteration of the inner loop of \<^verbatim>\<open>generate_subtasks\<close>: the row and the record
  of the \<open>i\<close>-th subtask of \<open>parent\<close>.\<close>

definition generate_subtask ::
    "datetime \<Rightarrow> string \<Rightarrow> string list \<Rightarrow> task \<Rightarrow> nat \<Rightarrow> subtask_draws
     \<Rightarrow> error + subtask_row \<times> subtask" where
  "generate_subtask now organization_id possible_creators parent i d =
     (let parent_created = task_created_at parent;
          parent_completed = task_completed_at parent;
          parent_due = task_due_date parent;
          base_sort = 0;
          sub_id = sd_uuid d;
          created_at = random_datetime_between parent_created
                         (case parent_completed of Some c \<Rightarrow> c | None \<Rightarrow> now) (sd_created d);
          due_date =
            (if parent_due \<noteq> None \<and> sd_inherit d < 8 / 10 then the parent_due
             else business_due_date_from_created created_at 1 30 (sd_due_tri d) (sd_due_snap d));
          completed_at =
            (if parent_completed \<noteq> None
             then (if sd_completed d < 9 / 10
                   then Some (completed_after_created created_at (Some due_date) 1 30
                                (sd_completed_beta d))
                   else None)
             else (if sd_completed d < 3 / 10
                   then Some (completed_after_created created_at (Some due_date) 1 30
                                (sd_completed_beta d))
                   else None))
      in bind_err (if truthy (task_assignee_id parent) then Inr (the (task_assignee_id parent))
                   else random_choice possible_creators (sd_creator d)) (\<lambda>created_by_user_id.
         let assignee_id = task_assignee_id parent;
             assignee_id = (if truthy assignee_id \<and> sd_delegate d < 15 / 100 then None
                            else assignee_id);
             title = sd_title d
         in Inr (\<lparr>sr_id = sub_id, sr_parent_task_id = task_id parent,
                   sr_project_id = task_project_id parent,
                   sr_organization_id = organization_id, sr_name = title,
                   sr_description = None, sr_assignee_id = assignee_id,
                   sr_created_by_user_id = created_by_user_id, sr_created_at = created_at,
                   sr_due_date = Some due_date, sr_completed_at = completed_at,
                   sr_sort_order = base_sort + int i\<rparr>,
                 \<lparr>subtask_id = sub_id, subtask_parent_task_id = task_id parent,
                   subtask_project_id = task_project_id parent\<rparr>)))"

text \<open>\<^verbatim>\<open>generate_subtasks(conn, organization_id, tasks)\<close>; \<open>now\<close> is the clock reading,
  \<open>target_frac\<close> the value of \<^verbatim>\<open>random.uniform(min_frac, max_frac)\<close>, \<open>rs\<close> the random
  bits of the parent sample, \<open>counts p\<close> the value of \<^verbatim>\<open>random.randint(2, 6)\<close> for the
  \<open>p\<close>-th parent and \<open>sds p i\<close> the draws of its \<open>i\<close>-th subtask. The rows reach the
  table only through the \<^verbatim>\<open>bulk_insert\<close> after the loops; an exception leaves the
  connection as it was.\<close>

definition generate_subtasks ::
    "conn \<Rightarrow> datetime \<Rightarrow> string \<Rightarrow> task list \<Rightarrow> rat \<Rightarrow> (nat \<Rightarrow> nat) \<Rightarrow> (nat \<Rightarrow> int)
     \<Rightarrow> (nat \<Rightarrow> nat \<Rightarrow> subtask_draws) \<Rightarrow> error + conn \<times> subtask list" where
  "generate_subtasks c now organization_id tasks target_frac rs counts sds =
     (if tasks = [] then Inr (c, [])
      else let num_parents = int_trunc (of_nat (length tasks) * target_frac)
           in bind_err (random_sample tasks (max 1 num_parents) rs) (\<lambda>parent_tasks.
              let possible_creators =
                    map (\<lambda>t. the (task_assignee_id t))
                      (filter (\<lambda>t. truthy (task_assignee_id t)) tasks)
              in bind_err
                   (for_each (\<lambda>(p, parent).
                      let count = counts p
                      in for_each (\<lambda>i. generate_subtask now organization_id possible_creators
                                          parent i (sds p i))
                           [0..<nat count])
                    (enumerate 0 parent_tasks)) (\<lambda>made.
                   let rows = map fst (concat made);
                       subtasks = map snd (concat made)
                   in Inr (c\<lparr>subtasks_table := bulk_insert (subtasks_table c) rows\<rparr>,
                           subtasks))))"

section \<open>generators/comments.py\<close>

text \<open>The draws of one comment: the identifier, the random bits of the author, the beta
  draw of the timestamp and the body.\<close>

record comment_draws =
  cd_uuid :: string
  cd_author :: nat
  cd_beta :: rat
  cd_body :: string

text \<open>The inner loop of \<^verbatim>\<open>generate_comments\<close> over \<^verbatim>\<open>range(comment_count)\<close>, entered with
  \<open>last_comment_time\<close>: the rows and records of the comments of one task, and the
  final \<open>last_comment_time\<close>.\<close>

fun thread_comments ::
    "task \<Rightarrow> user list \<Rightarrow> datetime \<Rightarrow> (nat \<Rightarrow> comment_draws) \<Rightarrow> datetime \<Rightarrow> nat list
     \<Rightarrow> error + (comment_row \<times> comment) list \<times> datetime" where
  "thread_comments tsk users stop cds last_comment_time [] = Inr ([], last_comment_time)"
| "thread_comments tsk users stop cds last_comment_time (i # rest) =
     (let comment_id = cd_uuid (cds i)
      in bind_err (random_choice users (cd_author (cds i))) (\<lambda>author.
         let ts = random_datetime_between last_comment_time stop (cd_beta (cds i));
             body = cd_body (cds i)
         in bind_err (thread_comments tsk users stop cds ts rest) (\<lambda>(made, final).
            Inr ((\<lparr>cr_id = comment_id, cr_task_id = task_id tsk, cr_subtask_id = None,
                    cr_author_id = user_id author, cr_body = body, cr_created_at = ts\<rparr>,
                  \<lparr>comment_id = comment_id, comment_task_id = task_id tsk\<rparr>) # made,
                 final))))"

text \<open>\<^verbatim>\<open>UPDATE tasks SET last_activity_at = MAX(last_activity_at, ?) WHERE id = ?\<close>. The
  column holds ISO strings of one format, whose order is the order of the timestamps.\<close>

definition update_last_activity :: "task_row list \<Rightarrow> datetime \<Rightarrow> string \<Rightarrow> task_row list" where
  "update_last_activity table ts tid =
     map (\<lambda>r. if kr_id r = tid
               then r\<lparr>kr_last_activity_at := max (kr_last_activity_at r) ts\<rparr> else r) table"

text \<open>The outer loop of \<^verbatim>\<open>generate_comments\<close> over the selected tasks, each paired with
  its position \<open>p\<close>: \<open>nows p\<close> is the clock reading used when the task is not complete,
  \<open>counts p\<close> the value of \<^verbatim>\<open>random.randint(1, 5)\<close> and \<open>cds p\<close> the draws of its
  comments.\<close>

fun comment_tasks ::
    "conn \<Rightarrow> user list \<Rightarrow> (nat \<Rightarrow> datetime) \<Rightarrow> (nat \<Rightarrow> int) \<Rightarrow> (nat \<Rightarrow> nat \<Rightarrow> comment_draws)
     \<Rightarrow> (nat \<times> task) list \<Rightarrow> error + conn \<times> (comment_row \<times> comment) list" where
  "comment_tasks c users nows counts cds [] = Inr (c, [])"
| "comment_tasks c users nows counts cds ((p, tsk) # rest) =
     (let created_at = task_created_at tsk;
          stop = (case task_completed_at tsk of Some done \<Rightarrow> done | None \<Rightarrow> nows p);
          comment_count = counts p;
          last_comment_time = created_at
      in bind_err (thread_comments tsk users stop (cds p) last_comment_time
                     [0..<nat comment_count]) (\<lambda>(made, last_comment_time).
         let c = c\<lparr>tasks_table :=
                     update_last_activity (tasks_table c) last_comment_time (task_id tsk)\<rparr>
         in bind_err (comment_tasks c users nows counts cds rest) (\<lambda>(c, made_rest).
            Inr (c, made @ made_rest))))"

text \<open>\<^verbatim>\<open>generate_comments(conn, tasks, users)\<close>; \<open>rs\<close> is the random bits of the task
  sample.\<close>

definition generate_comments ::
    "conn \<Rightarrow> task list \<Rightarrow> user list \<Rightarrow> (nat \<Rightarrow> nat) \<Rightarrow> (nat \<Rightarrow> datetime) \<Rightarrow> (nat \<Rightarrow> int)
     \<Rightarrow> (nat \<Rightarrow> nat \<Rightarrow> comment_draws) \<Rightarrow> error + conn \<times> comment list" where
  "generate_comments c tasks users rs nows counts cds =
     (if tasks = [] then Inr (c, [])
      else let num_tasks_with_comments =
                 int_trunc (of_nat (length tasks) * commented_task_fraction)
           in bind_err (random_sample tasks (max 1 num_tasks_with_comments) rs)
                (\<lambda>tasks_with_comments.
              bind_err (comment_tasks c users nows counts cds (enumerate 0 tasks_with_comments))
                (\<lambda>(c, made).
                 let rows = map fst made;
                     comments = map snd made
                 in Inr (c\<lparr>comments_table := bulk_insert (comments_table c) rows\<rparr>,
                         comments))))"

section \<open>Properties of the generated rows\<close>


section \<open>Example inputs\<close>

text \<open>Concrete inputs and draws on which the generators are run below. Ordinal 738886 is
  Monday 2024-01-01.\<close>

definition ex_conn :: conn where
  "ex_conn = \<lparr>teams_table = [], team_memberships_table = [], projects_table = [],
     tasks_table = [], subtasks_table = [], comments_table = []\<rparr>"


definition ex_name_draws :: "nat \<Rightarrow> rat" where
  "ex_name_draws n =
     [1 / 10, 3 / 10, 4 / 10, 5 / 10, 6 / 10, 65 / 100, 72 / 100, 77 / 100, 80 / 100,
      83 / 100, 86 / 100, 89 / 100, 92 / 100, 95 / 100, 98 / 100] ! (n mod 15)"







definition ex_task :: task where
  "ex_task = \<lparr>task_id = ''t1'', task_project_id = ''p1'', task_section_id = None,
     task_assignee_id = Some ''u1'', task_created_at = 738887 * us_per_day,
     task_due_date = None, task_completed_at = Some (738892 * us_per_day)\<rparr>"

definition ex_future_task :: task where
  "ex_future_task = \<lparr>task_id = ''t2'', task_project_id = ''p1'', task_section_id = None,
     task_assignee_id = None, task_created_at = 738900 * us_per_day,
     task_due_date = None, task_completed_at = None\<rparr>"





definition ex_subtask_draws :: "nat \<Rightarrow> nat \<Rightarrow> subtask_draws" where
  "ex_subtask_draws p i = \<lparr>sd_uuid = ''s1'', sd_created = 1 / 2, sd_inherit = 1 / 2,
     sd_due_tri = 10, sd_due_snap = 1 / 2, sd_completed = 95 / 100, sd_completed_beta = 1 / 2,
     sd_creator = 0, sd_delegate = 1 / 2, sd_title = ''Draft''\<rparr>"


section \<open>Rounding and sampling bounds\<close>

lemma round_half_even_nonneg: "0 \<le> x \<Longrightarrow> 0 \<le> round_half_even x"
  by (auto simp: round_half_even_def Let_def)


lemma round_half_even_of_int: "round_half_even (of_int n) = n"
  by (simp add: round_half_even_def Let_def)


section \<open>Business-day snapping\<close>

lemma weekday_range: "0 \<le> weekday d \<and> weekday d < 7"
  by (simp add: weekday_def)

lemma weekday_shift:
  "weekday d = 5 \<Longrightarrow> weekday (d - 1) = 4"
  "weekday d = 5 \<Longrightarrow> weekday (d + 2) = 0"
  "\<not> weekday d < 5 \<Longrightarrow> weekday d \<noteq> 5 \<Longrightarrow> weekday (d + 1) = 0"
  unfolding weekday_def by presburger+

lemma weekday_to_business_day:
  "weekday (to_business_day d u) =
     (if weekday d < 5 then weekday d else if weekday d = 5 \<and> u < 6 / 10 then 4 else 0)"
  by (simp add: to_business_day_def Let_def weekday_shift)

text \<open>
  Claim C6. For every \<open>created_at\<close>, \<open>min_days\<close>, \<open>max_days\<close> and every pair of draws,
  the date returned by \<open>business_due_date_from_created\<close> falls on Monday to Friday
  (weekdays 0 to 4). It is the snapped raw date, the raw date being the date of
  \<open>created_at\<close> when \<open>max_days \<le> 0\<close> and that date plus the clamped offset otherwise.
  Snapping leaves a weekday unchanged, moves a Saturday to the Friday before when the
  draw is below 0.6 and to the Monday after otherwise, and moves a Sunday to the Monday
  after.
\<close>

theorem business_due_date_never_weekend:
  "weekday (business_due_date_from_created created_at min_days max_days tri u) \<in> {0, 1, 2, 3, 4}
   \<and> business_due_date_from_created created_at min_days max_days tri u =
       to_business_day
         (if max_days \<le> 0 then date_of created_at
          else date_of created_at + max min_days (min max_days (round_half_even tri))) u
   \<and> weekday (to_business_day d u) =
       (if weekday d < 5 then weekday d else if weekday d = 5 \<and> u < 6 / 10 then 4 else 0)
   \<and> to_business_day d u - d =
       (if weekday d < 5 then 0
        else if weekday d = 5 then (if u < 6 / 10 then - 1 else 2)
        else 1)"
proof -
  have a: "weekday (to_business_day x u) \<in> {0, 1, 2, 3, 4}" for x
    using weekday_range [of x] by (auto simp: weekday_to_business_day)
  have b: "business_due_date_from_created created_at min_days max_days tri u =
       to_business_day
         (if max_days \<le> 0 then date_of created_at
          else date_of created_at + max min_days (min max_days (round_half_even tri))) u"
    by (simp add: business_due_date_from_created_def Let_def)
  have c: "to_business_day d u - d =
       (if weekday d < 5 then 0
        else if weekday d = 5 then (if u < 6 / 10 then - 1 else 2)
        else 1)"
    by (simp add: to_business_day_def Let_def)
  show ?thesis
    unfolding b using a c weekday_to_business_day [of d u] by blast
qed

text \<open>Monday 2024-01-01 is ordinal 738886: an offset of 5 days gives a Saturday, moved
  to Friday 738890 or Monday 738893; with \<open>max_days = 0\<close> a Sunday creation date moves
  to Monday.\<close>

theorem business_due_date_never_weekend_witness:
  "business_due_date_from_created (738886 * us_per_day + 9 * us_per_hour) 3 75 5 (1 / 2) = 738890
   \<and> weekday 738890 = 4
   \<and> business_due_date_from_created (738886 * us_per_day + 9 * us_per_hour) 3 75 5 (7 / 10) = 738893
   \<and> weekday 738893 = 0
   \<and> business_due_date_from_created (738892 * us_per_day) 3 0 5 (1 / 2) = 738893"
  using business_due_date_never_weekend [of "738886 * us_per_day + 9 * us_per_hour" 3 75 5 "1 / 2" 738891]
    business_due_date_never_weekend [of "738886 * us_per_day + 9 * us_per_hour" 3 75 5 "7 / 10" 738891]
    business_due_date_never_weekend [of "738892 * us_per_day" 3 0 5 "1 / 2" 738892]
  by (simp add: date_of_def us_per_day_def us_per_hour_def round_half_even_def weekday_def)

section \<open>Completion before creation\<close>

text \<open>
  Claim C1 (completion is never before creation). The code does not keep it: with a
  due date fewer than seven days after \<open>created_at\<close> the lower end of the completion
  window is \<open>due - 7 days\<close>, which lies before \<open>created_at\<close>. A task created on Monday
  2024-01-01 at 00:00 gets the due date Thursday 2024-01-04 from a triangular draw of 3
  days; with the beta draw 9/10 its completion time is 2023-12-30 02:24, that is
  164160 seconds before its creation.
\<close>

theorem completed_after_created_before_created:
  "business_due_date_from_created (738886 * us_per_day) 3 75 3 (1 / 2) = 738889
   \<and> completed_after_created (738886 * us_per_day) (Some 738889) 1 60 (9 / 10)
       = 738886 * us_per_day - 164160000000
   \<and> completed_after_created (738886 * us_per_day) (Some 738889) 1 60 (9 / 10)
       < 738886 * us_per_day"
  by (simp add: business_due_date_from_created_def completed_after_created_def
      random_datetime_between_def to_business_day_def weekday_def date_of_def combine_min_def
      timedelta_days_def timedelta_hours_def timedelta_seconds_def total_seconds_def
      round_half_even_def us_per_day_def us_per_hour_def us_per_second_def Let_def)

section \<open>Overdue injection\<close>

text \<open>
  Claim C3 (an injected task is overdue). The code does not keep it: the injection
  sets the due date to the date of \<open>now\<close>, and \<open>is_overdue\<close> asks for a due date
  strictly before that date. A sprint task created on 2023-12-29 with the clock at
  2024-01-01 12:00 gets the due date 2024-01-08 when the overdue draw does not fire; when
  it fires (draw 5/100) the task stays incomplete, its due date becomes 2024-01-01, and
  \<open>is_overdue\<close> is false for it.
\<close>

theorem overdue_injection_not_overdue:
  "(case generate_task (738886 * us_per_day + 12 * us_per_hour) ''org''
     \<lparr>project_id = ''p1'', project_team_id = ''tm1'', project_name = ''Sprint 12 - Orion'',
       project_type = ''sprint'', project_created_at = 738880 * us_per_day\<rparr>
     [] (build_team_members []) [\<lparr>user_id = ''u1'', user_role = ''Software Engineer''\<rparr>]
     \<lparr>kd_created = 1 / 2, kd_section = 0, kd_unassigned = 1 / 2, kd_assignee = 0,
       kd_due1 = 1 / 2, kd_due2 = 1 / 2, kd_due_tri = 10, kd_due_snap = 1 / 2,
       kd_completed = 9 / 10, kd_completed_beta = 1 / 2, kd_overdue = 1 / 2,
       kd_name = ''Ship it'', kd_uuid = ''t1'', kd_creator = 0, kd_priority = 0\<rparr> of
     Inl e \<Rightarrow> False
   | Inr (row, t) \<Rightarrow> kr_due_date row = Some 738893 \<and> kr_completed_at row = None)
   \<and> (case generate_task (738886 * us_per_day + 12 * us_per_hour) ''org''
     \<lparr>project_id = ''p1'', project_team_id = ''tm1'', project_name = ''Sprint 12 - Orion'',
       project_type = ''sprint'', project_created_at = 738880 * us_per_day\<rparr>
     [] (build_team_members []) [\<lparr>user_id = ''u1'', user_role = ''Software Engineer''\<rparr>]
     \<lparr>kd_created = 1 / 2, kd_section = 0, kd_unassigned = 1 / 2, kd_assignee = 0,
       kd_due1 = 1 / 2, kd_due2 = 1 / 2, kd_due_tri = 10, kd_due_snap = 1 / 2,
       kd_completed = 9 / 10, kd_completed_beta = 1 / 2, kd_overdue = 5 / 100,
       kd_name = ''Ship it'', kd_uuid = ''t1'', kd_creator = 0, kd_priority = 0\<rparr> of
     Inl e \<Rightarrow> False
   | Inr (row, t) \<Rightarrow>
       kr_due_date row = Some (date_of (738886 * us_per_day + 12 * us_per_hour))
       \<and> kr_due_date row = Some 738886
       \<and> kr_completed_at row = None
       \<and> \<not> is_overdue (kr_due_date row) (kr_completed_at row)
             (Some (738886 * us_per_day + 12 * us_per_hour)) 0)"
  by code_simp

section \<open>Last activity of a task\<close>

text \<open>
  Claim C4 (\<open>last_activity_at\<close> is at least \<open>created_at\<close> and is the maximum of
  creation, completion and latest comment). The code does not keep it for a task
  without comments whose completion time lies before its creation time:
  \<open>last_activity_at\<close> is the completion time when there is one. A sprint task created
  on Tuesday 2024-01-02 at 00:00 with the due date Friday 2024-01-05 and the completion
  beta draw 9/10 is completed on 2023-12-31 02:24, and that is its \<open>last_activity_at\<close>.
\<close>

theorem task_last_activity_before_created:
  "(case generate_task (738888 * us_per_day) ''org''
     \<lparr>project_id = ''p1'', project_team_id = ''tm1'', project_name = ''Sprint 12 - Orion'',
       project_type = ''sprint'', project_created_at = 738886 * us_per_day\<rparr>
     [] (build_team_members []) [\<lparr>user_id = ''u1'', user_role = ''Software Engineer''\<rparr>]
     \<lparr>kd_created = 1 / 2, kd_section = 0, kd_unassigned = 1 / 2, kd_assignee = 0,
       kd_due1 = 1 / 2, kd_due2 = 1 / 2, kd_due_tri = 3, kd_due_snap = 1 / 2,
       kd_completed = 1 / 2, kd_completed_beta = 9 / 10, kd_overdue = 1 / 2,
       kd_name = ''Ship it'', kd_uuid = ''t1'', kd_creator = 0, kd_priority = 0\<rparr> of
     Inl e \<Rightarrow> False
   | Inr (row, t) \<Rightarrow>
       kr_created_at row = 738887 * us_per_day
       \<and> kr_due_date row = Some 738890
       \<and> kr_completed_at row = Some (738885 * us_per_day + 8640000000)
       \<and> kr_last_activity_at row = 738885 * us_per_day + 8640000000
       \<and> kr_last_activity_at row < kr_created_at row
       \<and> kr_last_activity_at row \<noteq> max (kr_created_at row) (the (kr_completed_at row)))"
  by code_simp


section \<open>Sampling between two instants\<close>

lemma timedelta_seconds_nonneg: "0 \<le> s \<Longrightarrow> 0 \<le> timedelta_seconds s"
  by (simp add: timedelta_seconds_def us_per_second_def round_half_even_nonneg)


lemma random_datetime_between_ge:
  assumes "beta \<le> 1"
  shows "start \<le> random_datetime_between start stop beta"
proof (cases "start \<ge> stop")
  case True
  then show ?thesis by (simp add: random_datetime_between_def)
next
  case False
  then have "0 \<le> total_seconds (stop - start) * (1 - beta)"
    using assms by (simp add: total_seconds_def us_per_second_def)
  then show ?thesis
    using False by (simp add: random_datetime_between_def Let_def timedelta_seconds_nonneg)
qed



lemma bind_err_Inr:
  "bind_err m f = Inr y \<longleftrightarrow> (\<exists>x. m = Inr x \<and> f x = Inr y)"
  by (cases m) (auto simp: bind_err_def)

lemma bind_err_Inl:
  "bind_err m f = Inl e \<longleftrightarrow> (m = Inl e \<or> (\<exists>x. m = Inr x \<and> f x = Inl e))"
  by (cases m) (auto simp: bind_err_def)

lemma for_each_Inr:
  "for_each f xs = Inr ys \<Longrightarrow> list_all2 (\<lambda>x y. f x = Inr y) xs ys"
  by (induction xs arbitrary: ys) (auto split: sum.splits)

lemma for_each_Inr_iff:
  "for_each f xs = Inr ys \<longleftrightarrow> list_all2 (\<lambda>x y. f x = Inr y) xs ys"
proof
  show "list_all2 (\<lambda>x y. f x = Inr y) xs ys \<Longrightarrow> for_each f xs = Inr ys"
    by (induction xs ys rule: list_all2_induct) auto
qed (rule for_each_Inr)

lemma bulk_insert_append: "bulk_insert table rows = table @ rows"
  by (simp add: bulk_insert_def)





lemma for_each_mem:
  assumes "for_each f xs = Inr ys" "y \<in> set ys"
  obtains x where "x \<in> set xs" "f x = Inr y"
proof -
  from assms(1) have "list_all2 (\<lambda>x y. f x = Inr y) xs ys" by (rule for_each_Inr)
  with assms(2) obtain n where "n < length xs" "f (xs ! n) = Inr y"
    by (auto simp: list_all2_conv_all_nth in_set_conv_nth)
  then show thesis using that [of "xs ! n"] by simp
qed

lemma for_each_concat_mem:
  assumes "for_each F xs = Inr made" "y \<in> set (concat made)"
  obtains x ys where "x \<in> set xs" "F x = Inr ys" "y \<in> set ys"
proof -
  from assms(2) obtain ys where "ys \<in> set made" "y \<in> set ys" by auto
  with assms(1) show thesis using that by (auto elim: for_each_mem)
qed

lemma sample_pool_subset:
  "length pool = n \<Longrightarrow> i + k \<le> n \<Longrightarrow> set (sample_pool pool n i rs k) \<subseteq> set pool"
proof (induction k arbitrary: pool i)
  case 0
  then show ?case by simp
next
  case (Suc k)
  let ?j = "rs i mod (n - i)"
  let ?pool = "pool[?j := pool ! (n - i - 1)]"
  have "0 < n - i" using Suc.prems by simp
  then have "?j < n - i" by simp
  then have j: "?j < n" by simp
  have "set (sample_pool ?pool n (i + 1) rs k) \<subseteq> set ?pool"
    using Suc.prems by (intro Suc.IH) auto
  also have "set ?pool \<subseteq> insert (pool ! (n - i - 1)) (set pool)"
    by (rule set_update_subset_insert)
  also have "\<dots> \<subseteq> set pool" using Suc.prems by auto
  finally show ?case using j Suc.prems by (auto simp: Let_def)
qed

lemma sample_pool_length: "length (sample_pool pool n i rs k) = k"
  by (induction k arbitrary: pool i) (auto simp: Let_def)

lemma random_sample_Inr:
  assumes "random_sample population k rs = Inr ys"
  shows "set ys \<subseteq> set population \<and> int (length ys) = k"
proof -
  from assms have k: "0 \<le> k" "k \<le> int (length population)"
    and ys: "ys = sample_pool population (length population) 0 rs (nat k)"
    by (auto simp: random_sample_def Let_def split: if_splits)
  then show ?thesis
    using sample_pool_subset [of population "length population" 0 "nat k" rs]
    by (simp add: sample_pool_length)
qed





section \<open>Comment threads\<close>

lemma thread_comments_props:
  assumes "thread_comments tsk users stop cds lct idxs = Inr (made, final)"
    and "\<forall>i \<in> set idxs. cd_beta (cds i) \<le> 1"
  shows "length made = length idxs
         \<and> sorted (map (\<lambda>x. cr_created_at (fst x)) made)
         \<and> (\<forall>x \<in> set made. cr_task_id (fst x) = task_id tsk
               \<and> lct \<le> cr_created_at (fst x) \<and> cr_created_at (fst x) \<le> final)
         \<and> lct \<le> final
         \<and> final = (if made = [] then lct else cr_created_at (fst (last made)))"
  using assms
proof (induction idxs arbitrary: lct made final)
  case Nil
  then show ?case by simp
next
  case (Cons i rest)
  let ?ts = "random_datetime_between lct stop (cd_beta (cds i))"
  from Cons.prems(1) obtain author :: user and made' where
    rec: "thread_comments tsk users stop cds ?ts rest = Inr (made', final)"
    and made: "made = (\<lparr>cr_id = cd_uuid (cds i), cr_task_id = task_id tsk, cr_subtask_id = None,
                    cr_author_id = user_id author, cr_body = cd_body (cds i),
                    cr_created_at = ?ts\<rparr>,
                  \<lparr>comment_id = cd_uuid (cds i), comment_task_id = task_id tsk\<rparr>) # made'"
    by (auto simp: bind_err_Inr Let_def)
  have ih: "length made' = length rest
         \<and> sorted (map (\<lambda>x. cr_created_at (fst x)) made')
         \<and> (\<forall>x \<in> set made'. cr_task_id (fst x) = task_id tsk
               \<and> ?ts \<le> cr_created_at (fst x) \<and> cr_created_at (fst x) \<le> final)
         \<and> ?ts \<le> final
         \<and> final = (if made' = [] then ?ts else cr_created_at (fst (last made')))"
    using Cons.prems(2) by (intro Cons.IH [OF rec]) simp
  have ge: "lct \<le> ?ts" using Cons.prems(2) by (intro random_datetime_between_ge) simp
  show ?case using ih ge unfolding made by (auto simp: order.trans [OF ge])
qed





section \<open>Causal ordering\<close>




section \<open>Ordering of comment threads\<close>







section \<open>Weighted choice\<close>

lemma bisect_bounds: "lo \<le> hi \<Longrightarrow> lo \<le> bisect a x lo hi \<and> bisect a x lo hi \<le> hi"
proof (induction a x lo hi rule: bisect.induct)
  case (1 a x lo hi)
  note eq = bisect.simps [of a x lo hi]
  show ?case
  proof (cases "lo < hi")
    case False
    then show ?thesis unfolding eq using "1.prems" by simp
  next
    case True
    let ?mid = "(lo + hi) div 2"
    have m: "lo \<le> ?mid" "?mid < hi" using True by auto
    show ?thesis
    proof (cases "x < a ! ?mid")
      case lt: True
      from "1.IH"(1) [OF True refl lt] m
      show ?thesis unfolding eq using True lt by (simp add: Let_def)
    next
      case ge: False
      from "1.IH"(2) [OF True refl ge] m
      show ?thesis unfolding eq using True ge by (simp add: Let_def)
    qed
  qed
qed

lemma length_accumulate_from: "length (accumulate_from acc ws) = length ws"
  by (induction ws arbitrary: acc) auto

lemma length_accumulate: "length (accumulate ws) = length ws"
  by (simp add: accumulate_def length_accumulate_from)


lemma choices_mem: "choices population weights u = Inr x \<Longrightarrow> x \<in> set population"
proof -
  assume a: "choices population weights u = Inr x"
  then have l: "length weights = length population" and ne: "accumulate weights \<noteq> []"
    and x: "x = population ! bisect (accumulate weights) (u * last (accumulate weights)) 0
                  (length population - 1)"
    by (auto simp: choices_def Let_def length_accumulate split: if_splits)
  from l ne have "population \<noteq> []" using length_accumulate [of weights] by auto
  then have "bisect (accumulate weights) (u * last (accumulate weights)) 0
                  (length population - 1) < length population"
    using bisect_bounds [of 0 "length population - 1" "accumulate weights"
        "u * last (accumulate weights)"]
    by (cases population) auto
  then show ?thesis using x by simp
qed


lemma bind_err_simps:
  "bind_err (Inr x) f = f x"
  "bind_err (Inl e) f = Inl e"
  by (simp_all add: bind_err_def)



lemma random_sample_total:
  "0 \<le> k \<Longrightarrow> k \<le> int (length population) \<Longrightarrow>
   \<exists>ys. random_sample population k rs = Inr ys"
  by (simp add: random_sample_def)


section \<open>Team memberships\<close>














section \<open>Subtask creators\<close>

lemma random_choice_mem: "random_choice seq r = Inr x \<Longrightarrow> x \<in> set seq"
  by (auto simp: random_choice_def split: if_splits)

lemma generate_subtask_creator:
  assumes "generate_subtask now oid creators parent i d = Inr (row, s)"
  shows "sr_parent_task_id row = task_id parent
         \<and> (if truthy (task_assignee_id parent)
             then sr_created_by_user_id row = the (task_assignee_id parent)
             else sr_created_by_user_id row \<in> set creators)"
  using assms
  by (auto simp: generate_subtask_def bind_err_Inr Let_def dest: random_choice_mem
      split: if_splits)

lemma generate_subtask_no_creator:
  assumes "\<not> truthy (task_assignee_id parent)"
  shows "generate_subtask now oid [] parent i d = Inl IndexError"
  using assms by (simp add: generate_subtask_def Let_def random_choice_def bind_err_simps)

lemma for_each_first_Inl: "f x = Inl e \<Longrightarrow> for_each f (x # xs) = Inl e"
  by simp

lemma int_trunc_le:
  assumes "0 \<le> x" "x \<le> of_int n"
  shows "int_trunc x \<le> n"
  using assms by (simp add: int_trunc_def floor_le_iff)

text \<open>
  Claim C9. When \<open>generate_subtasks\<close> returns, every subtask row it appended names a
  parent among the input tasks, and its creator is the assignee of that parent when the
  parent has one (an assignee that is set and not empty), and otherwise the assignee of
  some input task that has one. When the input tasks are not empty and none of them has
  an assignee, the call ends with the \<open>IndexError\<close> of the choice from the empty pool,
  for a target fraction in \<open>[0.3, 0.4]\<close> and counts in \<open>2..6\<close>; the rows reach the table
  only through the insertion after the loops, which the failed call never reaches.
\<close>

theorem subtask_creator_rule:
  "(generate_subtasks c now oid tasks target_frac rs counts sds = Inr (c', subtasks) \<longrightarrow>
      (\<exists>rows. subtasks_table c' = subtasks_table c @ rows
         \<and> (\<forall>r \<in> set rows. \<exists>parent \<in> set tasks.
               sr_parent_task_id r = task_id parent
               \<and> (if truthy (task_assignee_id parent)
                   then sr_created_by_user_id r = the (task_assignee_id parent)
                   else \<exists>t \<in> set tasks. truthy (task_assignee_id t)
                          \<and> sr_created_by_user_id r = the (task_assignee_id t)))))
   \<and> (tasks \<noteq> [] \<and> (\<forall>t \<in> set tasks. \<not> truthy (task_assignee_id t))
        \<and> 3 / 10 \<le> target_frac \<and> target_frac \<le> 4 / 10
        \<and> (\<forall>p. 2 \<le> counts p \<and> counts p \<le> 6) \<longrightarrow>
      generate_subtasks c now oid tasks target_frac rs counts sds = Inl IndexError)"
proof (intro conjI impI)
  let ?creators = "map (\<lambda>t. the (task_assignee_id t))
                      (filter (\<lambda>t. truthy (task_assignee_id t)) tasks)"
  assume ok: "generate_subtasks c now oid tasks target_frac rs counts sds = Inr (c', subtasks)"
  show "\<exists>rows. subtasks_table c' = subtasks_table c @ rows
         \<and> (\<forall>r \<in> set rows. \<exists>parent \<in> set tasks.
               sr_parent_task_id r = task_id parent
               \<and> (if truthy (task_assignee_id parent)
                   then sr_created_by_user_id r = the (task_assignee_id parent)
                   else \<exists>t \<in> set tasks. truthy (task_assignee_id t)
                          \<and> sr_created_by_user_id r = the (task_assignee_id t)))"
  proof (cases "tasks = []")
    case True
    with ok show ?thesis by (simp add: generate_subtasks_def)
  next
    case False
    from False ok obtain parents made where
      parents: "random_sample tasks (max 1 (int_trunc (of_nat (length tasks) * target_frac))) rs
                  = Inr parents"
      and made: "for_each (\<lambda>(p, parent).
                        let count = counts p
                        in for_each (\<lambda>i. generate_subtask now oid ?creators parent i (sds p i))
                             [0..<nat count])
                      (enumerate 0 parents) = Inr made"
      and c': "c' = c\<lparr>subtasks_table := bulk_insert (subtasks_table c) (map fst (concat made))\<rparr>"
      by (auto simp: generate_subtasks_def bind_err_Inr Let_def)
    have "\<exists>parent \<in> set tasks.
               sr_parent_task_id r = task_id parent
               \<and> (if truthy (task_assignee_id parent)
                   then sr_created_by_user_id r = the (task_assignee_id parent)
                   else \<exists>t \<in> set tasks. truthy (task_assignee_id t)
                          \<and> sr_created_by_user_id r = the (task_assignee_id t))"
      if "r \<in> set (map fst (concat made))" for r
    proof -
      from that have "r \<in> fst ` set (concat made)" by simp
      then obtain s where "(r, s) \<in> set (concat made)" by (auto simp del: set_concat)
      with made obtain pp ys where pp: "pp \<in> set (enumerate 0 parents)"
        and ys: "(case pp of (p, parent) \<Rightarrow>
                        let count = counts p
                        in for_each (\<lambda>i. generate_subtask now oid ?creators parent i (sds p i))
                             [0..<nat count]) = Inr ys"
        and mem: "(r, s) \<in> set ys"
        by (rule for_each_concat_mem)
      obtain p parent where [simp]: "pp = (p, parent)" by (cases pp)
      from ys mem obtain i where
        "generate_subtask now oid ?creators parent i (sds p i) = Inr (r, s)"
        by (auto simp: Let_def elim: for_each_mem)
      note gc = generate_subtask_creator [OF this]
      have a: "sr_parent_task_id r = task_id parent"
        by (rule conjunct1 [OF gc])
      have b: "if truthy (task_assignee_id parent)
             then sr_created_by_user_id r = the (task_assignee_id parent)
             else sr_created_by_user_id r \<in> set ?creators"
        by (rule conjunct2 [OF gc])
      have mem: "parent \<in> set tasks"
        using pp random_sample_Inr [OF parents] by (auto simp: in_set_enumerate_eq)
      have pool: "\<exists>t \<in> set tasks. truthy (task_assignee_id t) \<and> x = the (task_assignee_id t)"
        if "x \<in> set ?creators" for x
        using that by auto
      show ?thesis
      proof (cases "truthy (task_assignee_id parent)")
        case True
        with a b mem show ?thesis by (intro bexI [of _ parent]) simp_all
      next
        case False
        with b have "sr_created_by_user_id r \<in> set ?creators" by simp
        from pool [OF this] a False mem show ?thesis by (intro bexI [of _ parent]) simp_all
      qed
    qed
    then show ?thesis using c' by (auto simp: bulk_insert_append)
  qed
next
  assume h: "tasks \<noteq> [] \<and> (\<forall>t \<in> set tasks. \<not> truthy (task_assignee_id t))
        \<and> 3 / 10 \<le> target_frac \<and> target_frac \<le> 4 / 10
        \<and> (\<forall>p. 2 \<le> counts p \<and> counts p \<le> 6)"
  define k where "k = max 1 (int_trunc (of_nat (length tasks) * target_frac))"
  have n: "1 \<le> int (length tasks)" using h by (cases tasks) auto
  have "of_nat (length tasks) * target_frac \<le> (of_nat (length tasks) :: rat) * 1"
    using h by (intro mult_left_mono) auto
  then have "int_trunc (of_nat (length tasks) * target_frac) \<le> int (length tasks)"
    using h by (intro int_trunc_le) auto
  then have k: "1 \<le> k" "k \<le> int (length tasks)" using n by (auto simp: k_def)
  then obtain parents where ps: "random_sample tasks k rs = Inr parents"
    using random_sample_total [of k tasks rs] by auto
  from random_sample_Inr [OF ps] k have sub: "set parents \<subseteq> set tasks"
    and "parents \<noteq> []" by auto
  then obtain p0 rest where pr: "parents = p0 # rest" by (cases parents) auto
  have creators: "map (\<lambda>t. the (task_assignee_id t))
                      (filter (\<lambda>t. truthy (task_assignee_id t)) tasks) = []"
    using h by (simp add: filter_empty_conv)
  have "\<not> truthy (task_assignee_id p0)" using h sub pr by auto
  then have g0: "generate_subtask now oid [] p0 0 (sds 0 0) = Inl IndexError"
    by (rule generate_subtask_no_creator)
  have "2 \<le> counts 0" using h by simp
  then have up: "[0..<nat (counts 0)] = 0 # [1..<nat (counts 0)]"
    by (simp add: upt_conv_Cons)
  have inner: "for_each (\<lambda>i. generate_subtask now oid [] p0 i (sds 0 i)) [0..<nat (counts 0)]
                 = Inl IndexError"
    unfolding up using g0 by simp
  have outer: "for_each (\<lambda>(p, parent).
                        let count = counts p
                        in for_each (\<lambda>i. generate_subtask now oid [] parent i (sds p i))
                             [0..<nat count])
                      (enumerate 0 parents) = Inl IndexError"
    unfolding pr using inner by (simp add: Let_def)
  show "generate_subtasks c now oid tasks target_frac rs counts sds = Inl IndexError"
    using h ps outer
    by (simp add: generate_subtasks_def Let_def k_def [symmetric] creators bind_err_simps)
qed

text \<open>An unassigned parent beside an assigned task: both subtasks are created by the
  assignee \<open>u1\<close> of the other task. An unassigned task alone: the call fails.\<close>

theorem subtask_creator_rule_witness:
  "(case generate_subtasks ex_conn (738888 * us_per_day) ''org'' [ex_future_task, ex_task] (1 / 3)
           (\<lambda>i. 0) (\<lambda>p. 2) ex_subtask_draws of
      Inr (c', subtasks) \<Rightarrow>
        length (subtasks_table c') = 2
        \<and> list_all (\<lambda>r. sr_created_by_user_id r = ''u1'') (subtasks_table c')
    | Inl e \<Rightarrow> False)
   \<and> generate_subtasks ex_conn (738888 * us_per_day) ''org'' [ex_future_task] (1 / 3)
         (\<lambda>i. 0) (\<lambda>p. 2) ex_subtask_draws = Inl IndexError"
proof -
  have "(case generate_subtasks ex_conn (738888 * us_per_day) ''org'' [ex_future_task, ex_task]
           (1 / 3) (\<lambda>i. 0) (\<lambda>p. 2) ex_subtask_draws of
           Inr (c', subtasks) \<Rightarrow> length (subtasks_table c') = 2 | Inl e \<Rightarrow> False)"
    by code_simp
  then obtain c' subtasks where r:
    "generate_subtasks ex_conn (738888 * us_per_day) ''org'' [ex_future_task, ex_task] (1 / 3)
       (\<lambda>i. 0) (\<lambda>p. 2) ex_subtask_draws = Inr (c', subtasks)"
    and l: "length (subtasks_table c') = 2"
    by (auto split: sum.splits)
  have t1: "truthy (task_assignee_id ex_task)" "the (task_assignee_id ex_task) = ''u1''"
    "\<not> truthy (task_assignee_id ex_future_task)"
    by (simp_all add: ex_task_def ex_future_task_def truthy_def)
  from subtask_creator_rule [of ex_conn "738888 * us_per_day" "''org''"
      "[ex_future_task, ex_task]" "1 / 3" "\<lambda>i. 0" "\<lambda>p. 2" ex_subtask_draws c' subtasks] r
  obtain rows where rows: "subtasks_table c' = subtasks_table ex_conn @ rows"
    "\<forall>r \<in> set rows. \<exists>parent \<in> set [ex_future_task, ex_task].
               sr_parent_task_id r = task_id parent
               \<and> (if truthy (task_assignee_id parent)
                   then sr_created_by_user_id r = the (task_assignee_id parent)
                   else \<exists>t \<in> set [ex_future_task, ex_task]. truthy (task_assignee_id t)
                          \<and> sr_created_by_user_id r = the (task_assignee_id t))"
    by blast
  have "sr_created_by_user_id r = ''u1''" if "r \<in> set rows" for r
    using rows(2) that t1 by auto
  moreover have "subtasks_table c' = rows" using rows(1) by (simp add: ex_conn_def)
  ultimately have a: "list_all (\<lambda>r. sr_created_by_user_id r = ''u1'') (subtasks_table c')"
    by (simp add: list_all_iff)
  have b: "generate_subtasks ex_conn (738888 * us_per_day) ''org'' [ex_future_task] (1 / 3)
         (\<lambda>i. 0) (\<lambda>p. 2) ex_subtask_draws = Inl IndexError"
    using subtask_creator_rule [of ex_conn "738888 * us_per_day" "''org''"
      "[ex_future_task]" "1 / 3" "\<lambda>i. 0" "\<lambda>p. 2" ex_subtask_draws] t1(3)
    by simp
  show ?thesis using a b l by (simp add: r)
qed


section \<open>Weighted unique selection of team names\<close>

lemma weighted_unique_sample_loop_partial:
  assumes "weighted_unique_sample_loop options weights target draws n chosen = Some y"
  shows "\<forall>r. y = Inr r \<longrightarrow> distinct chosen \<longrightarrow> set chosen \<subseteq> set options
           \<longrightarrow> int (length chosen) \<le> max 0 (min target (int (length options)))
           \<longrightarrow> distinct r \<and> set r \<subseteq> set options
               \<and> int (length r) = max 0 (min target (int (length options)))"
proof (rule weighted_unique_sample_loop.raw_induct
    [where P = "\<lambda>options weights target draws n chosen y.
       \<forall>r. y = Inr r \<longrightarrow> distinct chosen \<longrightarrow> set chosen \<subseteq> set options
           \<longrightarrow> int (length chosen) \<le> max 0 (min target (int (length options)))
           \<longrightarrow> distinct r \<and> set r \<subseteq> set options
               \<and> int (length r) = max 0 (min target (int (length options)))",
     OF _ assms], goal_cases)
  case (1 loop options weights target draws n chosen y)
  note IH = "1"(1) and body = "1"(2)
  show ?case
  proof (intro allI impI)
    fix r
    assume y: "y = Inr r" and dc: "distinct chosen" and sub: "set chosen \<subseteq> set options"
      and le: "int (length chosen) \<le> max 0 (min target (int (length options)))"
    show "distinct r \<and> set r \<subseteq> set options
               \<and> int (length r) = max 0 (min target (int (length options)))"
    proof (cases "int (length chosen) < target \<and> length chosen < length options")
      case False
      with body y have r: "r = chosen" by simp
      from False have "min target (int (length options)) \<le> int (length chosen)" by linarith
      with le have "int (length chosen) = max 0 (min target (int (length options)))" by linarith
      with r dc sub show ?thesis by simp
    next
      case True
      then have step: "(case choices options weights (draws n) of
           Inl e \<Rightarrow> Some (Inl e)
         | Inr pick \<Rightarrow>
             if pick \<notin> set chosen
             then loop options weights target draws (n + 1) (chosen @ [pick])
             else loop options weights target draws (n + 1) chosen) = Some y"
        using body by simp
      show ?thesis
      proof (cases "choices options weights (draws n)")
        case (Inl e)
        with step y show ?thesis by simp
      next
        case (Inr pick)
        have mem: "pick \<in> set options" using Inr by (rule choices_mem)
        show ?thesis
        proof (cases "pick \<in> set chosen")
          case old: True
          with step Inr have "loop options weights target draws (n + 1) chosen = Some y"
            by simp
          from IH [OF this] y dc sub le show ?thesis by blast
        next
          case new: False
          with step Inr
          have "loop options weights target draws (n + 1) (chosen @ [pick]) = Some y"
            by simp
          moreover have "distinct (chosen @ [pick])" using dc new by simp
          moreover have "set (chosen @ [pick]) \<subseteq> set options" using sub mem by simp
          moreover have "int (length (chosen @ [pick]))
                           \<le> max 0 (min target (int (length options)))"
            using True by simp
          ultimately show ?thesis using IH y by blast
        qed
      qed
    qed
  qed
qed

lemma choices_Inr_any:
  "choices population weights u = Inr x \<Longrightarrow> \<exists>y. choices population weights u' = Inr y"
  by (auto simp: choices_def Let_def split: if_splits)

lemma weighted_unique_sample_loop_returns:
  assumes d: "distinct options"
    and fair: "\<forall>n. \<forall>name \<in> set options. \<exists>m \<ge> n. choices options weights (draws m) = Inr name"
  shows "distinct chosen \<Longrightarrow> set chosen \<subseteq> set options \<Longrightarrow>
         \<exists>r. weighted_unique_sample_loop options weights target draws n chosen = Some (Inr r)"
proof (induction "length options - length chosen" arbitrary: chosen n rule: less_induct)
  case less
  note eq = weighted_unique_sample_loop.simps [of options weights target draws _ chosen]
  show ?case
  proof (cases "int (length chosen) < target \<and> length chosen < length options")
    case False
    then show ?thesis by (subst eq) auto
  next
    case True
    have "card (set chosen) < card (set options)"
      using True less.prems(1) d by (simp add: distinct_card)
    then have "\<not> set options \<subseteq> set chosen"
      using card_mono [of "set chosen" "set options"] by auto
    then obtain name where name: "name \<in> set options" "name \<notin> set chosen"
      by blast
    have fresh_step: "\<exists>r. weighted_unique_sample_loop options weights target draws k chosen
                        = Some (Inr r)"
      if "choices options weights (draws (k + j)) = Inr name" for j k
      using that
    proof (induction j arbitrary: k)
      case 0
      then have pick: "choices options weights (draws k) = Inr name" by simp
      have "length options - length (chosen @ [name]) < length options - length chosen"
        using True by auto
      moreover have "distinct (chosen @ [name])" "set (chosen @ [name]) \<subseteq> set options"
        using name less.prems by auto
      ultimately obtain r where
        "weighted_unique_sample_loop options weights target draws (k + 1) (chosen @ [name])
           = Some (Inr r)"
        using less.hyps by blast
      then show ?case using True pick name(2) by (subst eq) simp
    next
      case (Suc j)
      from fair name(1) obtain m where "choices options weights (draws m) = Inr name"
        by blast
      from choices_Inr_any [OF this, of "draws k"]
      obtain pick where pick: "choices options weights (draws k) = Inr pick"
        by blast
      show ?case
      proof (cases "pick \<in> set chosen")
        case True
        from Suc.prems have "choices options weights (draws (k + 1 + j)) = Inr name" by simp
        from Suc.IH [OF this] obtain r where
          "weighted_unique_sample_loop options weights target draws (k + 1) chosen = Some (Inr r)"
          by blast
        then show ?thesis
          using \<open>int (length chosen) < target \<and> length chosen < length options\<close> pick True
          by (subst eq) simp
      next
        case False
        have "pick \<in> set options" using pick by (rule choices_mem)
        have "length options - length (chosen @ [pick]) < length options - length chosen"
          using \<open>int (length chosen) < target \<and> length chosen < length options\<close> by auto
        moreover have "distinct (chosen @ [pick])" "set (chosen @ [pick]) \<subseteq> set options"
          using False \<open>pick \<in> set options\<close> less.prems by auto
        ultimately obtain r where
          "weighted_unique_sample_loop options weights target draws (k + 1) (chosen @ [pick])
             = Some (Inr r)"
          using less.hyps by blast
        then show ?thesis
          using \<open>int (length chosen) < target \<and> length chosen < length options\<close> pick False
          by (subst eq) simp
      qed
    qed
    from fair name(1) obtain m where "m \<ge> n" "choices options weights (draws m) = Inr name"
      by blast
    then have "choices options weights (draws (n + (m - n))) = Inr name" by simp
    from fresh_step [OF this] show ?thesis .
  qed
qed

lemma stuck_on_first_name:
  assumes "weighted_unique_sample_loop options weights target draws n chosen = Some y"
  shows "\<not> (options = base_names \<and> weights = base_weights \<and> target = 8 \<and> draws = (\<lambda>n. 0)
            \<and> (chosen = [] \<or> chosen = [''Engineering'']))"
proof (rule weighted_unique_sample_loop.raw_induct
    [where P = "\<lambda>options weights target draws n chosen y.
       \<not> (options = base_names \<and> weights = base_weights \<and> target = 8 \<and> draws = (\<lambda>n. 0)
            \<and> (chosen = [] \<or> chosen = [''Engineering'']))", OF _ assms], goal_cases)
  case (1 loop options weights target draws n chosen y)
  note IH = "1"(1) and body = "1"(2)
  have pick: "choices base_names base_weights 0 = Inr ''Engineering''" by code_simp
  have len: "length base_names = 15" by (simp add: base_names_def)
  show ?case
  proof
    assume a: "options = base_names \<and> weights = base_weights \<and> target = 8 \<and> draws = (\<lambda>n. 0)
            \<and> (chosen = [] \<or> chosen = [''Engineering''])"
    then consider "chosen = []" | "chosen = [''Engineering'']" by blast
    then show False
    proof cases
      case empty: 1
      with a body pick len
      have "loop base_names base_weights 8 (\<lambda>n. 0) (n + 1) [''Engineering''] = Some y"
        by simp
      from IH [OF this] show False by simp
    next
      case one: 2
      with a body pick len
      have "loop base_names base_weights 8 (\<lambda>n. 0) (n + 1) [''Engineering''] = Some y"
        by simp
      from IH [OF this] show False by simp
    qed
  qed
qed

text \<open>
  Claim C7 as stated (the selection loop finishes for every target count and every
  stream of draws) fails: names already chosen stay in the catalog the loop draws from,
  and a repeated pick is discarded without progress. On the catalog of
  \<open>generate_teams\<close> with target 8, the stream of draws that is constantly 0 picks
  Engineering every time and the loop never returns.
\<close>

theorem weighted_unique_sample_diverges:
  "weighted_unique_sample base_names base_weights 8 (\<lambda>n. 0) = None"
proof (cases "weighted_unique_sample base_names base_weights 8 (\<lambda>n. 0)")
  case None
  then show ?thesis .
next
  case (Some y)
  then have "weighted_unique_sample_loop base_names base_weights 8 (\<lambda>n. 0) 0 [] = Some y"
    by (simp add: weighted_unique_sample_def)
  from stuck_on_first_name [OF this] show ?thesis by simp
qed

text \<open>
  Claim C7, amended. Whenever \<open>_weighted_unique_sample\<close> returns a list, the list has
  no duplicates, consists of names of the catalog, and its length is the smaller of the
  target count and the size of the catalog (0 for a negative target). It does return a
  list whenever the catalog has no duplicates and every name of the catalog is picked
  again after every position of the stream of draws.
\<close>

theorem weighted_unique_sample_result:
  "(weighted_unique_sample options weights target draws = Some (Inr r) \<longrightarrow>
      distinct r \<and> set r \<subseteq> set options
      \<and> int (length r) = max 0 (min target (int (length options))))
   \<and> (distinct options
        \<and> (\<forall>n. \<forall>name \<in> set options. \<exists>m \<ge> n. choices options weights (draws m) = Inr name)
      \<longrightarrow> (\<exists>r. weighted_unique_sample options weights target draws = Some (Inr r)))"
proof (rule conjI; rule impI)
  assume "weighted_unique_sample options weights target draws = Some (Inr r)"
  then have "weighted_unique_sample_loop options weights target draws 0 [] = Some (Inr r)"
    by (simp add: weighted_unique_sample_def)
  from weighted_unique_sample_loop_partial [OF this]
  show "distinct r \<and> set r \<subseteq> set options
      \<and> int (length r) = max 0 (min target (int (length options)))"
    by simp
next
  assume "distinct options
        \<and> (\<forall>n. \<forall>name \<in> set options. \<exists>m \<ge> n. choices options weights (draws m) = Inr name)"
  then have "\<exists>r. weighted_unique_sample_loop options weights target draws 0 [] = Some (Inr r)"
    by (intro weighted_unique_sample_loop_returns) auto
  then show "\<exists>r. weighted_unique_sample options weights target draws = Some (Inr r)"
    by (simp add: weighted_unique_sample_def)
qed

text \<open>The catalog of \<open>generate_teams\<close> with target 8 and a stream of draws that cycles
  through all fifteen names: the selection returns eight distinct names of the
  catalog.\<close>

theorem weighted_unique_sample_result_witness:
  "(case weighted_unique_sample base_names base_weights 8 ex_name_draws of
      Some (Inr r) \<Rightarrow> distinct r \<and> length r = 8 \<and> list_all (\<lambda>name. name \<in> set base_names) r
    | _ \<Rightarrow> False)"
proof -
  have len: "length base_names = 15" by (simp add: base_names_def)
  have d: "distinct base_names" by code_simp
  have picks: "map (\<lambda>i. choices base_names base_weights (ex_name_draws i)) [0..<15]
                 = map Inr base_names"
    by code_simp
  have pick: "choices base_names base_weights (ex_name_draws (15 * n + i)) = Inr (base_names ! i)"
    if "i < 15" for n i
  proof -
    have "ex_name_draws (15 * n + i) = ex_name_draws i" by (simp add: ex_name_draws_def)
    moreover have "map (\<lambda>i. choices base_names base_weights (ex_name_draws i)) [0..<15] ! i
                     = map Inr base_names ! i"
      by (simp only: picks)
    ultimately show ?thesis using that len by simp
  qed
  have fair: "\<forall>n. \<forall>name \<in> set base_names.
                \<exists>m \<ge> n. choices base_names base_weights (ex_name_draws m) = Inr name"
  proof (intro allI ballI)
    fix n name assume "name \<in> set base_names"
    then obtain i where i: "i < 15" "name = base_names ! i"
      using len by (auto simp: in_set_conv_nth)
    have "15 * n + i \<ge> n" by simp
    with pick [OF i(1), of n] i(2) show
      "\<exists>m \<ge> n. choices base_names base_weights (ex_name_draws m) = Inr name"
      by blast
  qed
  note res = weighted_unique_sample_result [of base_names base_weights 8 ex_name_draws]
  from res d fair obtain r where
    r: "weighted_unique_sample base_names base_weights 8 ex_name_draws = Some (Inr r)"
    by blast
  with res [of r] have "distinct r" "set r \<subseteq> set base_names"
    "int (length r) = max 0 (min 8 (int (length base_names)))"
    by simp_all
  then show ?thesis using len by (simp add: r list_all_iff subset_iff)
qed


section \<open>Last activity after comments\<close>

text \<open>A task row leaves \<open>generate_task\<close> with its completion time as
  \<open>last_activity_at\<close> when it is complete and its creation time otherwise. After
  \<open>generate_comments\<close> no task row has lost its id or creation time, no
  \<open>last_activity_at\<close> has decreased, and the \<open>last_activity_at\<close> of every task row is
  at least the timestamp of every comment row inserted for its id.\<close>

lemma generate_task_last_activity:
  assumes "generate_task now oid prj secs tms users d = Inr (row, t)"
  shows "kr_last_activity_at row
           = (case kr_completed_at row of Some c \<Rightarrow> c | None \<Rightarrow> kr_created_at row)"
  using assms by (auto simp: generate_task_def bind_err_Inr Let_def)

lemma update_last_activity_rel:
  "list_all2 (\<lambda>a b. kr_id b = kr_id a \<and> kr_created_at b = kr_created_at a
                      \<and> kr_last_activity_at a \<le> kr_last_activity_at b
                      \<and> (kr_id a = tid \<longrightarrow> ts \<le> kr_last_activity_at b))
     table (update_last_activity table ts tid)"
  by (induction table) (auto simp: update_last_activity_def)

lemma comment_tasks_last_activity:
  assumes "comment_tasks c users nows counts cds ps = Inr (c', made)"
    and "\<forall>p i. cd_beta (cds p i) \<le> 1"
  shows "list_all2 (\<lambda>a b. kr_id b = kr_id a \<and> kr_created_at b = kr_created_at a
                      \<and> kr_last_activity_at a \<le> kr_last_activity_at b)
           (tasks_table c) (tasks_table c')
         \<and> (\<forall>x \<in> set made. \<forall>k \<in> set (tasks_table c').
               kr_id k = cr_task_id (fst x) \<longrightarrow> cr_created_at (fst x) \<le> kr_last_activity_at k)"
  using assms(1)
proof (induction ps arbitrary: c c' made)
  case Nil
  then show ?case by (simp add: list_all2_refl)
next
  case (Cons pt rest)
  obtain p tsk where [simp]: "pt = (p, tsk)" by (cases pt)
  let ?stop = "case task_completed_at tsk of Some fin \<Rightarrow> fin | None \<Rightarrow> nows p"
  let ?R = "\<lambda>a b. kr_id b = kr_id a \<and> kr_created_at b = kr_created_at a
                      \<and> kr_last_activity_at a \<le> kr_last_activity_at b"
  from Cons.prems obtain made1 final made2 where
    one: "thread_comments tsk users ?stop (cds p) (task_created_at tsk) [0..<nat (counts p)]
            = Inr (made1, final)"
    and rec: "comment_tasks
                (c\<lparr>tasks_table := update_last_activity (tasks_table c) final (task_id tsk)\<rparr>)
                users nows counts cds rest = Inr (c', made2)"
    and res: "made = made1 @ made2"
    by (auto simp: bind_err_Inr Let_def)
  let ?T1 = "update_last_activity (tasks_table c) final (task_id tsk)"
  have up: "list_all2 (\<lambda>a b. ?R a b \<and> (kr_id a = task_id tsk \<longrightarrow> final \<le> kr_last_activity_at b))
              (tasks_table c) ?T1"
    by (rule list_all2_mono [OF update_last_activity_rel]) auto
  from Cons.IH [OF rec]
  have r2: "list_all2 ?R ?T1 (tasks_table c')"
    and m2: "\<forall>x \<in> set made2. \<forall>k \<in> set (tasks_table c').
               kr_id k = cr_task_id (fst x) \<longrightarrow> cr_created_at (fst x) \<le> kr_last_activity_at k"
    by simp_all
  have m1: "\<forall>x \<in> set made1. cr_task_id (fst x) = task_id tsk \<and> cr_created_at (fst x) \<le> final"
    using thread_comments_props [OF one] assms(2) by auto
  have r: "list_all2 ?R (tasks_table c) (tasks_table c')"
    by (rule list_all2_trans [OF _ up r2]) auto
  have fin: "final \<le> kr_last_activity_at k"
    if "k \<in> set (tasks_table c')" "kr_id k = task_id tsk" for k
  proof -
    from that(1) obtain i where i: "i < length (tasks_table c')" "k = tasks_table c' ! i"
      by (auto simp: in_set_conv_nth)
    have l: "length (tasks_table c) = length ?T1" "length ?T1 = length (tasks_table c')"
      using up r2 by (auto dest: list_all2_lengthD)
    have a: "kr_id (?T1 ! i) = kr_id (tasks_table c ! i)"
      "kr_id (tasks_table c ! i) = task_id tsk \<longrightarrow> final \<le> kr_last_activity_at (?T1 ! i)"
      using up i(1) l unfolding list_all2_conv_all_nth by auto
    have b: "kr_id k = kr_id (?T1 ! i)" "kr_last_activity_at (?T1 ! i) \<le> kr_last_activity_at k"
      using r2 i l unfolding list_all2_conv_all_nth by auto
    from a b that(2) show ?thesis by auto
  qed
  have m1': "cr_created_at (fst x) \<le> kr_last_activity_at k"
    if "x \<in> set made1" "k \<in> set (tasks_table c')" "kr_id k = cr_task_id (fst x)" for x k
  proof -
    from m1 that(1) have "cr_task_id (fst x) = task_id tsk" "cr_created_at (fst x) \<le> final"
      by simp_all
    with fin [OF that(2)] that(3) show ?thesis by simp
  qed
  have "\<forall>x \<in> set made. \<forall>k \<in> set (tasks_table c').
               kr_id k = cr_task_id (fst x) \<longrightarrow> cr_created_at (fst x) \<le> kr_last_activity_at k"
    unfolding res using m1' m2 by auto
  with r show ?case by simp
qed

lemma comment_tasks_keeps_comments:
  "comment_tasks c users nows counts cds ps = Inr (c', made) \<Longrightarrow>
   comments_table c' = comments_table c"
proof (induction ps arbitrary: c c' made)
  case Nil
  then show ?case by simp
next
  case (Cons pt rest)
  obtain p tsk where [simp]: "pt = (p, tsk)" by (cases pt)
  from Cons.prems obtain final made2 where
    "comment_tasks
       (c\<lparr>tasks_table := update_last_activity (tasks_table c) final (task_id tsk)\<rparr>)
       users nows counts cds rest = Inr (c', made2)"
    by (auto simp: bind_err_Inr Let_def)
  from Cons.IH [OF this] show ?case by simp
qed

lemma generate_comments_last_activity:
  assumes "generate_comments c tasks users rs nows counts cds = Inr (c', comments)"
    and "\<forall>p i. cd_beta (cds p i) \<le> 1"
  shows "\<exists>rows. comments_table c' = comments_table c @ rows
           \<and> list_all2 (\<lambda>a b. kr_id b = kr_id a \<and> kr_created_at b = kr_created_at a
                               \<and> kr_last_activity_at a \<le> kr_last_activity_at b)
               (tasks_table c) (tasks_table c')
           \<and> (\<forall>r \<in> set rows. \<forall>k \<in> set (tasks_table c').
                 kr_id k = cr_task_id r \<longrightarrow> cr_created_at r \<le> kr_last_activity_at k)"
proof (cases "tasks = []")
  case True
  with assms(1) show ?thesis by (simp add: generate_comments_def list_all2_refl)
next
  case False
  from False assms(1) obtain sel c1 made where
    ct: "comment_tasks c users nows counts cds (enumerate 0 sel) = Inr (c1, made)"
    and c': "c' = c1\<lparr>comments_table := bulk_insert (comments_table c1) (map fst made)\<rparr>"
    by (auto simp: generate_comments_def bind_err_Inr Let_def)
  have tbl: "comments_table c1 = comments_table c"
    using ct by (rule comment_tasks_keeps_comments)
  from comment_tasks_last_activity [OF ct assms(2)] tbl c' show ?thesis
    by (intro exI [of _ "map fst made"]) (simp add: bulk_insert_append)
qed
end
